theory Spec2Isabelle
  imports Main
begin

section \<open>The C preprocessor fragment used by \<open>include/strings.h\<close>\<close>

text \<open>
  The repository's only source file is a header of conditional preprocessor directives.
  Its meaning is the effect it has on the macro table of the translation unit that includes
  it. A macro is object-like (\<^verbatim>\<open>#define N tokens\<close>) or function-like
  (\<^verbatim>\<open>#define N(params) tokens\<close>); the table is the finite list of the definitions
  in force, most recent first.
\<close>

type_synonym ident = string

datatype macro = ObjectLike "string list" | FunctionLike "ident list" "string list"

type_synonym macro_table = "(ident \<times> macro) list"

datatype pp_error = Redefinition ident

type_synonym directive = "macro_table \<Rightarrow> pp_error + macro_table"

text \<open>
  The system headers \<^verbatim>\<open><string.h>\<close> and \<^verbatim>\<open><ctype.h>\<close> belong to the toolchain,
  not to the repository: their effect on the macro table is a parameter.
\<close>

type_synonym system_headers = "string \<Rightarrow> macro_table \<Rightarrow> macro_table"

definition is_defined :: "ident \<Rightarrow> macro_table \<Rightarrow> bool" where
  "is_defined n env = (map_of env n \<noteq> None)"

text \<open>
  \<^verbatim>\<open>#define\<close>: a name that is already a macro may only be defined again with the
  identical definition (C11 6.10.3p2); anything else is a redefinition error.
\<close>

definition pp_define :: "ident \<Rightarrow> macro \<Rightarrow> directive" where
  "pp_define n m env =
     (case map_of env n of
        None \<Rightarrow> Inr ((n, m) # env)
      | Some m' \<Rightarrow> if m' = m then Inr env else Inl (Redefinition n))"

fun pp_block :: "directive list \<Rightarrow> directive" where
  "pp_block [] env = Inr env"
| "pp_block (d # ds) env = (case d env of Inl e \<Rightarrow> Inl e | Inr env' \<Rightarrow> pp_block ds env')"

definition pp_ifdef :: "ident \<Rightarrow> directive list \<Rightarrow> directive" where
  "pp_ifdef n body env = (if is_defined n env then pp_block body env else Inr env)"

definition pp_ifndef :: "ident \<Rightarrow> directive list \<Rightarrow> directive" where
  "pp_ifndef n body env = (if is_defined n env then Inr env else pp_block body env)"

definition pp_include :: "system_headers \<Rightarrow> string \<Rightarrow> directive" where
  "pp_include sys h env = Inr (sys h env)"

section \<open>The header\<close>

text \<open>
  \<^verbatim>\<open>
  #ifndef HTML_TO_MARKDOWN_RB_STRINGS_H
  #define HTML_TO_MARKDOWN_RB_STRINGS_H
  #include <string.h>
  #ifdef _WIN32
  #  include <ctype.h>
  #  ifndef strcasecmp
  #    define strcasecmp _stricmp
  #  endif
  #  ifndef strncasecmp
  #    define strncasecmp _strnicmp
  #  endif
  #endif
  #endif
  \<close>
\<close>

abbreviation HTML_TO_MARKDOWN_RB_STRINGS_H :: ident where
  "HTML_TO_MARKDOWN_RB_STRINGS_H \<equiv> ''HTML_TO_MARKDOWN_RB_STRINGS_H''"

definition strings_h :: "system_headers \<Rightarrow> directive" where
  "strings_h sys =
     pp_ifndef HTML_TO_MARKDOWN_RB_STRINGS_H
       [pp_define HTML_TO_MARKDOWN_RB_STRINGS_H (ObjectLike []),
        pp_include sys ''string.h'',
        pp_ifdef ''_WIN32''
          [pp_include sys ''ctype.h'',
           pp_ifndef ''strcasecmp''
             [pp_define ''strcasecmp'' (ObjectLike [''_stricmp''])],
           pp_ifndef ''strncasecmp''
             [pp_define ''strncasecmp'' (ObjectLike [''_strnicmp''])]]]"

section \<open>Using a name after the header has been included\<close>

text \<open>
  An identifier in the program text that follows the header is macro-replaced before it
  names anything. \<open>resolve\<close> follows a chain of object-like macros whose replacement
  list is one token, rescanning the result; a name is not replaced again while its own
  replacement is being rescanned (C11 6.10.3.4p2), which \<open>painted\<close> records. A
  function-like macro, or a replacement list that is not a single token, does not leave a
  plain function name: the result is \<open>None\<close>.
\<close>

function resolve :: "macro_table \<Rightarrow> ident list \<Rightarrow> ident \<Rightarrow> ident option" where
  "resolve env painted n =
     (if n \<in> set painted then Some n
      else case map_of env n of
             None \<Rightarrow> Some n
           | Some (ObjectLike [t]) \<Rightarrow> resolve env (n # painted) t
           | Some _ \<Rightarrow> None)"
  by pat_completeness auto
termination
proof (relation "measure (\<lambda>(env, painted, n). card (fst ` set env - set painted))")
  show "wf (measure (\<lambda>(env, painted, n). card (fst ` set env - set painted)))" by simp
next
  fix env :: macro_table and painted :: "ident list" and n t :: ident and m :: macro
  assume "n \<notin> set painted" "map_of env n = Some m"
  then have "n \<in> fst ` set env - set painted"
    by (auto dest: map_of_SomeD intro: rev_image_eqI)
  then have "card (fst ` set env - set painted - {n}) < card (fst ` set env - set painted)"
    by (intro card_Diff1_less) auto
  moreover have "fst ` set env - set (n # painted) = fst ` set env - set painted - {n}" by auto
  ultimately show "((env, n # painted, t), (env, painted, n))
      \<in> measure (\<lambda>(env, painted, n). card (fst ` set env - set painted))"
    by simp
qed

declare resolve.simps [simp del]

text \<open>
  The comparison routines live in the platform's C library, outside the repository. A
  library is a table from symbol names to routines; a routine returns \<open>None\<close> on
  an input where it has no defined result (an invalid pointer, say).
\<close>

type_synonym cmp2 = "string \<Rightarrow> string \<Rightarrow> int option"

type_synonym cmp3 = "string \<Rightarrow> string \<Rightarrow> nat \<Rightarrow> int option"

datatype failure =
  Preprocessing pp_error | Not_a_function_name ident | Unresolved_symbol ident | Primitive_undefined

definition reach :: "macro_table \<Rightarrow> (ident \<rightharpoonup> 'f) \<Rightarrow> ident \<Rightarrow> failure + 'f" where
  "reach env lib n =
     (case resolve env [] n of
        None \<Rightarrow> Inl (Not_a_function_name n)
      | Some f \<Rightarrow> (case lib f of None \<Rightarrow> Inl (Unresolved_symbol f) | Some p \<Rightarrow> Inr p))"

definition after_strings_h ::
  "system_headers \<Rightarrow> macro_table \<Rightarrow> (ident \<rightharpoonup> 'f) \<Rightarrow> ident \<Rightarrow> failure + 'f" where
  "after_strings_h sys env lib n =
     (case strings_h sys env of
        Inl e \<Rightarrow> Inl (Preprocessing e)
      | Inr env' \<Rightarrow> reach env' lib n)"

text \<open>
  The calls \<^verbatim>\<open>strcasecmp(s1, s2)\<close> and \<^verbatim>\<open>strncasecmp(s1, s2, n)\<close> written
  after \<^verbatim>\<open>#include "strings.h"\<close>, in a translation unit whose macro table was
  \<open>env\<close> before the inclusion.
\<close>

definition use_strcasecmp ::
  "system_headers \<Rightarrow> macro_table \<Rightarrow> (ident \<rightharpoonup> cmp2) \<Rightarrow> string \<Rightarrow> string \<Rightarrow> failure + int" where
  "use_strcasecmp sys env lib s1 s2 =
     (case after_strings_h sys env lib ''strcasecmp'' of
        Inl e \<Rightarrow> Inl e
      | Inr p \<Rightarrow> (case p s1 s2 of None \<Rightarrow> Inl Primitive_undefined | Some r \<Rightarrow> Inr r))"

definition use_strncasecmp ::
  "system_headers \<Rightarrow> macro_table \<Rightarrow> (ident \<rightharpoonup> cmp3) \<Rightarrow> string \<Rightarrow> string \<Rightarrow> nat
     \<Rightarrow> failure + int" where
  "use_strncasecmp sys env lib s1 s2 n =
     (case after_strings_h sys env lib ''strncasecmp'' of
        Inl e \<Rightarrow> Inl e
      | Inr p \<Rightarrow> (case p s1 s2 n of None \<Rightarrow> Inl Primitive_undefined | Some r \<Rightarrow> Inr r))"

section \<open>Assumptions on the surroundings\<close>

text \<open>
  \<open>keeps sys n\<close>: no system header defines, redefines or undefines the name \<open>n\<close>.
\<close>

definition keeps :: "system_headers \<Rightarrow> ident \<Rightarrow> bool" where
  "keeps sys n = (\<forall>h env. map_of (sys h env) n = map_of env n)"

text \<open>
  A translation unit for a Windows-family target that includes the header for the first
  time: \<^verbatim>\<open>_WIN32\<close> is defined, and neither the two conventional names nor the two
  native names are macros.
\<close>

definition windows_tu :: "system_headers \<Rightarrow> macro_table \<Rightarrow> bool" where
  "windows_tu sys env =
     (\<not> is_defined HTML_TO_MARKDOWN_RB_STRINGS_H env \<and>
      is_defined ''_WIN32'' env \<and> keeps sys ''_WIN32'' \<and>
      (\<forall>n \<in> set [''strcasecmp'', ''strncasecmp'', ''_stricmp'', ''_strnicmp''].
         \<not> is_defined n env \<and> keeps sys n))"

text \<open>
  A translation unit for any other target: \<^verbatim>\<open>_WIN32\<close> is not defined and the two
  conventional names are not macros.
\<close>

definition posix_tu :: "system_headers \<Rightarrow> macro_table \<Rightarrow> bool" where
  "posix_tu sys env =
     (\<not> is_defined ''_WIN32'' env \<and> keeps sys ''_WIN32'' \<and>
      (\<forall>n \<in> set [''strcasecmp'', ''strncasecmp'']. \<not> is_defined n env \<and> keeps sys n))"

text \<open>
  The table the header leaves behind on a Windows-family target is built from two guarded
  definitions; \<open>install_alias\<close> names one of them in the proofs.
\<close>

definition install_alias :: "ident \<Rightarrow> ident \<Rightarrow> macro_table \<Rightarrow> macro_table" where
  "install_alias n t env = (if is_defined n env then env else (n, ObjectLike [t]) # env)"

section \<open>The platform's comparison routines\<close>

text \<open>
  Modelled from the spec: the case-insensitive comparison routines themselves
  (\<^verbatim>\<open>strcasecmp\<close>, \<^verbatim>\<open>strncasecmp\<close> and their Windows equivalents
  \<^verbatim>\<open>_stricmp\<close>, \<^verbatim>\<open>_strnicmp\<close>) are C library code that the repository only
  names. The spec's contract: given two null-terminated character sequences (and, for the
  bounded variant, a maximum number of characters to compare), return an ordering indicator
  (negative, zero, or positive) reflecting case-insensitive lexicographic comparison,
  identical in meaning to the POSIX-style functions. The model is the usual loop: read one
  character of each string as an unsigned char, fold it with \<^verbatim>\<open>tolower\<close> (in
  the C locale), stop at the first difference or at the terminator. A buffer is a
  \<open>string\<close>; reading past its end reads the terminating NUL.
\<close>

definition tolower :: "int \<Rightarrow> int" where
  "tolower k = (if 65 \<le> k \<and> k \<le> 90 then k + 32 else k)"

definition peek :: "string \<Rightarrow> int" where
  "peek s = (case s of [] \<Rightarrow> 0 | c # _ \<Rightarrow> int (of_char c))"

function posix_strcasecmp :: "string \<Rightarrow> string \<Rightarrow> int" where
  "posix_strcasecmp s1 s2 =
     (let c1 = tolower (peek s1); c2 = tolower (peek s2) in
      if c1 \<noteq> c2 then c1 - c2
      else if c1 = 0 then 0
      else posix_strcasecmp (tl s1) (tl s2))"
  by pat_completeness auto
termination
proof (relation "measure (\<lambda>(s1, s2). length s1)")
  show "wf (measure (\<lambda>(s1, s2). length s1))" by simp
next
  fix s1 s2 :: string and c1 c2 :: int
  assume "c1 = tolower (peek s1)" "c1 \<noteq> 0"
  then have "s1 \<noteq> []" by (auto simp: peek_def tolower_def)
  then show "((tl s1, tl s2), (s1, s2)) \<in> measure (\<lambda>(s1, s2). length s1)" by simp
qed

declare posix_strcasecmp.simps [simp del]

fun posix_strncasecmp :: "string \<Rightarrow> string \<Rightarrow> nat \<Rightarrow> int" where
  "posix_strncasecmp s1 s2 0 = 0"
| "posix_strncasecmp s1 s2 (Suc n) =
     (let c1 = tolower (peek s1); c2 = tolower (peek s2) in
      if c1 \<noteq> c2 then c1 - c2
      else if c1 = 0 then 0
      else posix_strncasecmp (tl s1) (tl s2) n)"

text \<open>
  Modelled from the spec: the two kinds of platform the header distinguishes, and the
  library each provides. On a Windows-family target the native routines carry the names
  \<^verbatim>\<open>_stricmp\<close> and \<^verbatim>\<open>_strnicmp\<close>; elsewhere the conventional names are
  native. The spec takes both to have the POSIX meaning.
\<close>

datatype target = Windows | Posix

definition libc2 :: "target \<Rightarrow> ident \<rightharpoonup> cmp2" where
  "libc2 tgt =
     (case tgt of
        Windows \<Rightarrow> [''_stricmp'' \<mapsto> (\<lambda>s1 s2. Some (posix_strcasecmp s1 s2))]
      | Posix \<Rightarrow> [''strcasecmp'' \<mapsto> (\<lambda>s1 s2. Some (posix_strcasecmp s1 s2))])"

definition libc3 :: "target \<Rightarrow> ident \<rightharpoonup> cmp3" where
  "libc3 tgt =
     (case tgt of
        Windows \<Rightarrow> [''_strnicmp'' \<mapsto> (\<lambda>s1 s2 n. Some (posix_strncasecmp s1 s2 n))]
      | Posix \<Rightarrow> [''strncasecmp'' \<mapsto> (\<lambda>s1 s2 n. Some (posix_strncasecmp s1 s2 n))])"

definition tu_for :: "target \<Rightarrow> system_headers \<Rightarrow> macro_table \<Rightarrow> bool" where
  "tu_for tgt sys env = (case tgt of Windows \<Rightarrow> windows_tu sys env | Posix \<Rightarrow> posix_tu sys env)"

section \<open>The vocabulary of the properties\<close>

text \<open>
  The C string held in a buffer is what precedes the first NUL. Two characters are the same
  letter when they are equal or are the upper-case and lower-case form of one ASCII letter;
  two strings differ only in letter case when they are the same letter position by position.
\<close>

definition c_str :: "string \<Rightarrow> string" where
  "c_str s = takeWhile (\<lambda>c. c \<noteq> CHR 0x00) s"

definition same_letter :: "char \<Rightarrow> char \<Rightarrow> bool" where
  "same_letter c d =
     (let j = int (of_char c); k = int (of_char d) in
      j = k \<or> (65 \<le> j \<and> j \<le> 90 \<and> k = j + 32) \<or> (65 \<le> k \<and> k \<le> 90 \<and> j = k + 32))"

definition differ_only_in_case :: "string \<Rightarrow> string \<Rightarrow> bool" where
  "differ_only_in_case s1 s2 = list_all2 same_letter (c_str s1) (c_str s2)"

text \<open>
  Case-insensitive lexicographic comparison, stated on whole strings rather than as a
  loop: fold every character, order the folded strings lexicographically, and report
  \<open>0\<close>, \<open>-1\<close> or \<open>1\<close>.
\<close>

definition fold_case :: "string \<Rightarrow> int list" where
  "fold_case s = map (\<lambda>c. tolower (int (of_char c))) s"

definition ci_less :: "string \<Rightarrow> string \<Rightarrow> bool" where
  "ci_less s1 s2 = ord_class.lexordp (fold_case s1) (fold_case s2)"

definition ci_compare :: "string \<Rightarrow> string \<Rightarrow> int" where
  "ci_compare s1 s2 =
     (if fold_case s1 = fold_case s2 then 0 else if ci_less s1 s2 then - 1 else 1)"

section \<open>A concrete toolchain for the examples\<close>

text \<open>
  System headers in which \<^verbatim>\<open><string.h>\<close> defines \<^verbatim>\<open>NULL\<close> and
  \<^verbatim>\<open><ctype.h>\<close> defines no macro, and the macros a compiler predefines for each
  kind of target.
\<close>

definition sample_headers :: system_headers where
  "sample_headers h env =
     (if h = ''string.h'' \<and> \<not> is_defined ''NULL'' env
      then (''NULL'', ObjectLike [''0'']) # env else env)"

definition predefined :: "target \<Rightarrow> macro_table" where
  "predefined tgt = (case tgt of Windows \<Rightarrow> [(''_WIN32'', ObjectLike [''1''])] | Posix \<Rightarrow> [])"

section \<open>What the header does to the macro table\<close>

lemma pp_ifndef_define:
  "pp_ifndef n [pp_define n m] env = Inr (if is_defined n env then env else (n, m) # env)"
  by (simp add: pp_ifndef_def pp_define_def is_defined_def)

lemma pp_block_include:
  "pp_block (pp_include sys h # ds) env = pp_block ds (sys h env)"
  by (simp add: pp_include_def)

lemma pp_block_ifndef_define:
  "pp_block (pp_ifndef n [pp_define n m] # ds) env =
     pp_block ds (if is_defined n env then env else (n, m) # env)"
  by (simp only: pp_block.simps pp_ifndef_define sum.case)

lemma pp_block_define_fresh:
  "\<not> is_defined n env \<Longrightarrow> pp_block (pp_define n m # ds) env = pp_block ds ((n, m) # env)"
  by (simp add: pp_define_def is_defined_def)

lemma pp_block_ifdef_last:
  "pp_block [pp_ifdef n body] env = (if is_defined n env then pp_block body env else Inr env)"
  by (simp add: pp_ifdef_def split: sum.split)

lemma strings_h_unfold:
  "strings_h sys env =
     (if is_defined HTML_TO_MARKDOWN_RB_STRINGS_H env then Inr env
      else let e1 = sys ''string.h'' ((HTML_TO_MARKDOWN_RB_STRINGS_H, ObjectLike []) # env) in
        if is_defined ''_WIN32'' e1
        then Inr (install_alias ''strncasecmp'' ''_strnicmp'' (install_alias ''strcasecmp'' ''_stricmp'' (sys ''ctype.h'' e1)))
        else Inr e1)"
proof (cases "is_defined HTML_TO_MARKDOWN_RB_STRINGS_H env")
  case True
  then show ?thesis by (simp only: strings_h_def pp_ifndef_def if_True)
next
  case False
  let ?e1 = "sys ''string.h'' ((HTML_TO_MARKDOWN_RB_STRINGS_H, ObjectLike []) # env)"
  show ?thesis
  proof (cases "is_defined ''_WIN32'' ?e1")
    case True
    with False show ?thesis
      by (simp only: strings_h_def pp_ifndef_def if_False if_True pp_block_define_fresh
          pp_block_include pp_block_ifdef_last pp_block_ifndef_define pp_block.simps(1)
          install_alias_def Let_def simp_thms)
  next
    case nw: False
    with False show ?thesis
      by (simp only: strings_h_def pp_ifndef_def if_False pp_block_define_fresh
          pp_block_include pp_block_ifdef_last Let_def simp_thms)
  qed
qed

lemma strings_h_total: "\<exists>env'. strings_h sys env = Inr env'"
  by (simp only: strings_h_unfold Let_def split: if_split) blast

lemma install_alias_frame: "map_of env n = Some m \<Longrightarrow> map_of (install_alias k t env) n = Some m"
  by (auto simp: install_alias_def is_defined_def)

lemma install_alias_other: "k \<noteq> n \<Longrightarrow> map_of (install_alias k t env) n = map_of env n"
  by (simp add: install_alias_def)

lemma install_alias_fresh:
  "map_of env k = None \<Longrightarrow> map_of (install_alias k t env) k = Some (ObjectLike [t])"
  by (simp add: install_alias_def is_defined_def)

lemma strings_h_frame:
  assumes "strings_h sys env = Inr env'" and "keeps sys n" and "map_of env n = Some m"
  shows "map_of env' n = Some m"
proof -
  have k: "map_of (sys h e) n = map_of e n" for h e
    using assms(2) by (simp add: keeps_def)
  show ?thesis
  proof (cases "is_defined HTML_TO_MARKDOWN_RB_STRINGS_H env")
    case True
    with assms(1,3) show ?thesis by (simp add: strings_h_unfold)
  next
    case False
    define e1 where "e1 = sys ''string.h'' ((HTML_TO_MARKDOWN_RB_STRINGS_H, ObjectLike []) # env)"
    from False assms(3) have "map_of ((HTML_TO_MARKDOWN_RB_STRINGS_H, ObjectLike []) # env) n = Some m"
      by (auto simp: is_defined_def)
    then have m1: "map_of e1 n = Some m"
      by (simp only: e1_def k)
    then have m2: "map_of (install_alias ''strncasecmp'' ''_strnicmp''
        (install_alias ''strcasecmp'' ''_stricmp'' (sys ''ctype.h'' e1))) n = Some m"
      by (simp only: install_alias_frame k)
    from assms(1) False have "env' = e1 \<or> env' = install_alias ''strncasecmp'' ''_strnicmp''
        (install_alias ''strcasecmp'' ''_stricmp'' (sys ''ctype.h'' e1))"
      by (simp add: strings_h_unfold Let_def e1_def split: if_splits)
    with m1 m2 show ?thesis by blast
  qed
qed

lemma keeps_through:
  assumes "keeps sys n" and "n \<noteq> HTML_TO_MARKDOWN_RB_STRINGS_H"
  shows "map_of (sys h ((HTML_TO_MARKDOWN_RB_STRINGS_H, ObjectLike []) # env)) n = map_of env n"
  using assms by (simp add: keeps_def)

lemma install_alias_defined: "is_defined n env \<Longrightarrow> is_defined n (install_alias k t env)"
  by (auto simp: install_alias_def is_defined_def)

lemma strings_h_guarded:
  "is_defined HTML_TO_MARKDOWN_RB_STRINGS_H env \<Longrightarrow> strings_h sys env = Inr env"
  by (simp add: strings_h_unfold)

lemma strings_h_not_windows:
  assumes "\<not> is_defined ''_WIN32'' env" and "keeps sys ''_WIN32''"
  shows "strings_h sys env =
           Inr (if is_defined HTML_TO_MARKDOWN_RB_STRINGS_H env then env
                else sys ''string.h'' ((HTML_TO_MARKDOWN_RB_STRINGS_H, ObjectLike []) # env))"
proof -
  have "map_of (sys ''string.h'' ((HTML_TO_MARKDOWN_RB_STRINGS_H, ObjectLike []) # env)) ''_WIN32''
      = map_of env ''_WIN32''"
    using assms(2) by (rule keeps_through) simp
  with assms(1)
  have "\<not> is_defined ''_WIN32'' (sys ''string.h'' ((HTML_TO_MARKDOWN_RB_STRINGS_H, ObjectLike []) # env))"
    by (simp add: is_defined_def)
  then show ?thesis by (simp add: strings_h_unfold Let_def)
qed

lemma resolve_plain: "map_of env n = None \<Longrightarrow> resolve env [] n = Some n"
  by (subst resolve.simps) simp

lemma resolve_alias:
  assumes "map_of env n = Some (ObjectLike [t])" and "map_of env t = None"
  shows "resolve env [] n = Some t"
proof -
  have "resolve env [n] t = Some t"
    using assms(2) by (subst resolve.simps) simp
  then show ?thesis
    using assms(1) by (subst resolve.simps) simp
qed

lemma windows_table:
  assumes w: "windows_tu sys env" and r: "strings_h sys env = Inr env'"
  shows "map_of env' ''strcasecmp'' = Some (ObjectLike [''_stricmp''])"
    and "map_of env' ''strncasecmp'' = Some (ObjectLike [''_strnicmp''])"
    and "map_of env' ''_stricmp'' = None"
    and "map_of env' ''_strnicmp'' = None"
proof -
  define e1 where "e1 = sys ''string.h'' ((HTML_TO_MARKDOWN_RB_STRINGS_H, ObjectLike []) # env)"
  define e2 where "e2 = sys ''ctype.h'' e1"
  define e3 where "e3 = install_alias ''strcasecmp'' ''_stricmp'' e2"
  from w have g: "\<not> is_defined HTML_TO_MARKDOWN_RB_STRINGS_H env"
    and win: "is_defined ''_WIN32'' env" and kw: "keeps sys ''_WIN32''"
    and k: "keeps sys ''strcasecmp''" "keeps sys ''strncasecmp''"
           "keeps sys ''_stricmp''" "keeps sys ''_strnicmp''"
    and u: "map_of env ''strcasecmp'' = None" "map_of env ''strncasecmp'' = None"
           "map_of env ''_stricmp'' = None" "map_of env ''_strnicmp'' = None"
    by (simp_all add: windows_tu_def is_defined_def)
  have "map_of e1 ''_WIN32'' = map_of env ''_WIN32''"
    unfolding e1_def using kw by (rule keeps_through) simp
  with win have w1: "is_defined ''_WIN32'' e1" by (simp add: is_defined_def)
  have "strings_h sys env = Inr (install_alias ''strncasecmp'' ''_strnicmp'' e3)"
    using g w1 by (simp add: strings_h_unfold Let_def e1_def e2_def e3_def)
  with r have env': "env' = install_alias ''strncasecmp'' ''_strnicmp'' e3" by simp
  have e1: "map_of e1 n = map_of env n"
    if "keeps sys n" "n \<noteq> HTML_TO_MARKDOWN_RB_STRINGS_H" for n
    unfolding e1_def using that by (rule keeps_through)
  have e2: "map_of e2 n = map_of env n"
    if "keeps sys n" "n \<noteq> HTML_TO_MARKDOWN_RB_STRINGS_H" for n
    using that e1 [OF that] by (simp add: e2_def keeps_def)
  have a: "map_of e2 ''strcasecmp'' = None" using e2 [OF k(1)] u(1) by simp
  have b: "map_of e2 ''strncasecmp'' = None" using e2 [OF k(2)] u(2) by simp
  have c: "map_of e2 ''_stricmp'' = None" using e2 [OF k(3)] u(3) by simp
  have d: "map_of e2 ''_strnicmp'' = None" using e2 [OF k(4)] u(4) by simp
  have b3: "map_of e3 ''strncasecmp'' = None"
    using b by (simp add: e3_def install_alias_other)
  show "map_of env' ''strcasecmp'' = Some (ObjectLike [''_stricmp''])"
    using a by (simp add: env' e3_def install_alias_other install_alias_fresh)
  show "map_of env' ''strncasecmp'' = Some (ObjectLike [''_strnicmp''])"
    using b3 by (simp add: env' install_alias_fresh)
  show "map_of env' ''_stricmp'' = None"
    using c by (simp add: env' e3_def install_alias_other)
  show "map_of env' ''_strnicmp'' = None"
    using d by (simp add: env' e3_def install_alias_other)
qed

lemma posix_table:
  assumes p: "posix_tu sys env" and r: "strings_h sys env = Inr env'"
  shows "env' = (if is_defined HTML_TO_MARKDOWN_RB_STRINGS_H env then env
                 else sys ''string.h'' ((HTML_TO_MARKDOWN_RB_STRINGS_H, ObjectLike []) # env))"
    and "map_of env' ''strcasecmp'' = None"
    and "map_of env' ''strncasecmp'' = None"
proof -
  define e1 where "e1 = sys ''string.h'' ((HTML_TO_MARKDOWN_RB_STRINGS_H, ObjectLike []) # env)"
  from p have nw: "\<not> is_defined ''_WIN32'' env" and kw: "keeps sys ''_WIN32''"
    and k: "keeps sys ''strcasecmp''" "keeps sys ''strncasecmp''"
    and u: "map_of env ''strcasecmp'' = None" "map_of env ''strncasecmp'' = None"
    by (simp_all add: posix_tu_def is_defined_def)
  have "map_of e1 ''_WIN32'' = map_of env ''_WIN32''"
    unfolding e1_def using kw by (rule keeps_through) simp
  with nw have w1: "\<not> is_defined ''_WIN32'' e1" by (simp add: is_defined_def)
  with r show env': "env' = (if is_defined HTML_TO_MARKDOWN_RB_STRINGS_H env then env
                 else sys ''string.h'' ((HTML_TO_MARKDOWN_RB_STRINGS_H, ObjectLike []) # env))"
    by (simp add: strings_h_unfold Let_def e1_def split: if_splits)
  have "map_of e1 ''strcasecmp'' = None"
    unfolding e1_def using u(1) keeps_through [OF k(1)] by simp
  with u(1) show "map_of env' ''strcasecmp'' = None"
    by (simp add: env' e1_def)
  have "map_of e1 ''strncasecmp'' = None"
    unfolding e1_def using u(2) keeps_through [OF k(2)] by simp
  with u(2) show "map_of env' ''strncasecmp'' = None"
    by (simp add: env' e1_def)
qed

lemma reach_windows:
  assumes "windows_tu sys env"
  shows "after_strings_h sys env lib ''strcasecmp'' =
           (case lib ''_stricmp'' of None \<Rightarrow> Inl (Unresolved_symbol ''_stricmp'') | Some p \<Rightarrow> Inr p)"
    and "after_strings_h sys env lib ''strncasecmp'' =
           (case lib ''_strnicmp'' of None \<Rightarrow> Inl (Unresolved_symbol ''_strnicmp'') | Some p \<Rightarrow> Inr p)"
proof -
  obtain env' where r: "strings_h sys env = Inr env'"
    using strings_h_total by blast
  note t = windows_table [OF assms r]
  have "resolve env' [] ''strcasecmp'' = Some ''_stricmp''"
    using t(1) t(3) by (rule resolve_alias)
  then show "after_strings_h sys env lib ''strcasecmp'' =
           (case lib ''_stricmp'' of None \<Rightarrow> Inl (Unresolved_symbol ''_stricmp'') | Some p \<Rightarrow> Inr p)"
    by (simp add: after_strings_h_def r reach_def)
  have "resolve env' [] ''strncasecmp'' = Some ''_strnicmp''"
    using t(2) t(4) by (rule resolve_alias)
  then show "after_strings_h sys env lib ''strncasecmp'' =
           (case lib ''_strnicmp'' of None \<Rightarrow> Inl (Unresolved_symbol ''_strnicmp'') | Some p \<Rightarrow> Inr p)"
    by (simp add: after_strings_h_def r reach_def)
qed

lemma reach_posix:
  assumes "posix_tu sys env"
  shows "after_strings_h sys env lib ''strcasecmp'' =
           (case lib ''strcasecmp'' of None \<Rightarrow> Inl (Unresolved_symbol ''strcasecmp'') | Some p \<Rightarrow> Inr p)"
    and "after_strings_h sys env lib ''strncasecmp'' =
           (case lib ''strncasecmp'' of None \<Rightarrow> Inl (Unresolved_symbol ''strncasecmp'') | Some p \<Rightarrow> Inr p)"
proof -
  obtain env' where r: "strings_h sys env = Inr env'"
    using strings_h_total by blast
  note t = posix_table [OF assms r]
  show "after_strings_h sys env lib ''strcasecmp'' =
           (case lib ''strcasecmp'' of None \<Rightarrow> Inl (Unresolved_symbol ''strcasecmp'') | Some p \<Rightarrow> Inr p)"
    using resolve_plain [OF t(2)] by (simp add: after_strings_h_def r reach_def)
  show "after_strings_h sys env lib ''strncasecmp'' =
           (case lib ''strncasecmp'' of None \<Rightarrow> Inl (Unresolved_symbol ''strncasecmp'') | Some p \<Rightarrow> Inr p)"
    using resolve_plain [OF t(3)] by (simp add: after_strings_h_def r reach_def)
qed

section \<open>Properties of the comparison loop\<close>

lemma of_char_zero: "(of_char c :: nat) = 0 \<longleftrightarrow> c = CHR 0x00"
proof -
  have "(of_char c :: nat) = of_char (CHR 0x00) \<longleftrightarrow> c = CHR 0x00"
    by (rule of_char_eq_iff)
  then show ?thesis by simp
qed

lemma tolower_zero: "0 \<le> k \<Longrightarrow> tolower k = 0 \<longleftrightarrow> k = 0"
  by (auto simp: tolower_def)

lemma peek_nonneg: "0 \<le> peek s"
  by (simp add: peek_def split: list.split)

lemma peek_zero: "peek s = 0 \<Longrightarrow> c_str s = []"
  by (cases s) (auto simp: peek_def c_str_def of_char_zero)

lemma peek_nonzero:
  assumes "peek s \<noteq> 0"
  obtains x xs where "s = x # xs" "c_str s = x # c_str xs" "peek s = int (of_char x)"
proof (cases s)
  case Nil
  with assms show ?thesis by (simp add: peek_def)
next
  case (Cons x xs)
  with assms have "x \<noteq> CHR 0x00" by (auto simp: peek_def of_char_zero)
  with Cons that show ?thesis by (simp add: c_str_def peek_def)
qed

lemma c_str_Cons: "c_str s = x # r \<Longrightarrow> peek s = int (of_char x) \<and> peek s \<noteq> 0 \<and> c_str (tl s) = r"
  by (cases s) (auto simp: c_str_def peek_def of_char_zero split: if_splits)

lemma c_str_Nil: "c_str s = [] \<Longrightarrow> peek s = 0"
  by (cases s) (auto simp: c_str_def peek_def split: if_splits)

lemma same_letter_tolower:
  "same_letter c d \<Longrightarrow> tolower (int (of_char c)) = tolower (int (of_char d))"
  by (auto simp: same_letter_def tolower_def Let_def)

lemma strcasecmp_case_only:
  "differ_only_in_case s1 s2 \<Longrightarrow> posix_strcasecmp s1 s2 = 0"
proof (induction s1 s2 rule: posix_strcasecmp.induct)
  case (1 s1 s2)
  show ?case
  proof (cases "c_str s1")
    case Nil
    with "1.prems" have "c_str s2 = []" by (simp add: differ_only_in_case_def)
    with Nil have "peek s1 = 0" "peek s2 = 0" by (simp_all add: c_str_Nil)
    then show ?thesis by (subst posix_strcasecmp.simps) (simp add: tolower_def)
  next
    case (Cons x xs)
    with "1.prems" obtain y ys where ys: "c_str s2 = y # ys" and xy: "same_letter x y"
      and rest: "list_all2 same_letter xs ys"
      by (auto simp: differ_only_in_case_def list_all2_Cons1)
    from c_str_Cons [OF Cons] have p1: "peek s1 = int (of_char x)" "peek s1 \<noteq> 0" "c_str (tl s1) = xs"
      by simp_all
    from c_str_Cons [OF ys] have p2: "peek s2 = int (of_char y)" "peek s2 \<noteq> 0" "c_str (tl s2) = ys"
      by simp_all
    have eq: "tolower (peek s1) = tolower (peek s2)"
      using xy by (simp add: p1 p2 same_letter_tolower)
    have nz: "tolower (peek s1) \<noteq> 0"
      using p1(2) peek_nonneg [of s1] by (simp add: tolower_zero)
    have "differ_only_in_case (tl s1) (tl s2)"
      using rest p1(3) p2(3) by (simp add: differ_only_in_case_def)
    with "1.IH" eq nz have "posix_strcasecmp (tl s1) (tl s2) = 0" by simp
    with eq nz show ?thesis by (subst posix_strcasecmp.simps) (simp add: Let_def)
  qed
qed

lemma strncasecmp_case_only:
  "differ_only_in_case s1 s2 \<Longrightarrow> posix_strncasecmp s1 s2 n = 0"
proof (induction n arbitrary: s1 s2)
  case 0
  show ?case by simp
next
  case (Suc n)
  show ?case
  proof (cases "c_str s1")
    case Nil
    with Suc.prems have "c_str s2 = []" by (simp add: differ_only_in_case_def)
    with Nil have "peek s1 = 0" "peek s2 = 0" by (simp_all add: c_str_Nil)
    then show ?thesis by (simp add: tolower_def)
  next
    case (Cons x xs)
    with Suc.prems obtain y ys where ys: "c_str s2 = y # ys" and xy: "same_letter x y"
      and rest: "list_all2 same_letter xs ys"
      by (auto simp: differ_only_in_case_def list_all2_Cons1)
    from c_str_Cons [OF Cons] have p1: "peek s1 = int (of_char x)" "c_str (tl s1) = xs"
      by simp_all
    from c_str_Cons [OF ys] have p2: "peek s2 = int (of_char y)" "c_str (tl s2) = ys"
      by simp_all
    have eq: "tolower (peek s1) = tolower (peek s2)"
      using xy by (simp add: p1 p2 same_letter_tolower)
    have "differ_only_in_case (tl s1) (tl s2)"
      using rest p1(2) p2(2) by (simp add: differ_only_in_case_def)
    then have "posix_strncasecmp (tl s1) (tl s2) n = 0" by (rule Suc.IH)
    with eq show ?thesis by (simp add: Let_def)
  qed
qed

lemma tolower_peek_zero: "tolower (peek s) = 0 \<longleftrightarrow> peek s = 0"
  using peek_nonneg [of s] by (rule tolower_zero)

lemma tolower_peek_nonneg: "0 \<le> tolower (peek s)"
  using peek_nonneg [of s] by (simp add: tolower_def)

lemma c_str_cases:
  obtains (stop) "peek s = 0" "c_str s = []"
  | (char) x where "peek s = int (of_char x)" "peek s \<noteq> 0" "c_str s = x # c_str (tl s)"
proof (cases "peek s = 0")
  case True
  then show ?thesis using stop peek_zero by blast
next
  case False
  then obtain x xs where "s = x # xs" "c_str s = x # c_str xs" "peek s = int (of_char x)"
    by (rule peek_nonzero)
  with False show ?thesis using char by simp
qed

lemma agree_peek:
  assumes "list_all2 same_letter (take (Suc n) (c_str s)) (take (Suc n) (c_str t))"
  shows "tolower (peek s) = tolower (peek t)"
proof (cases s rule: c_str_cases)
  case stop
  with assms have "c_str t = []" by simp
  then have "peek t = 0" by (rule c_str_Nil)
  with stop show ?thesis by simp
next
  case (char x)
  with assms obtain y ys where "c_str t = y # ys" "same_letter x y"
    by (cases "c_str t") auto
  with char c_str_Cons [of t y ys] show ?thesis by (simp add: same_letter_tolower)
qed

lemma agree_tl:
  assumes "list_all2 same_letter (take (Suc n) (c_str s)) (take (Suc n) (c_str t))"
    and "peek s \<noteq> 0"
  shows "list_all2 same_letter (take n (c_str (tl s))) (take n (c_str (tl t)))"
proof (cases s rule: c_str_cases)
  case stop
  with assms(2) show ?thesis by simp
next
  case (char x)
  with assms(1) obtain y ys where t: "c_str t = y # ys"
    by (cases "c_str t") auto
  from c_str_Cons [OF t] have "c_str (tl t) = ys" by simp
  with assms(1) char t show ?thesis by simp
qed

lemma strncasecmp_prefix:
  assumes "list_all2 same_letter (take n (c_str s1)) (take n (c_str t1))"
    and "list_all2 same_letter (take n (c_str s2)) (take n (c_str t2))"
  shows "posix_strncasecmp s1 s2 n = posix_strncasecmp t1 t2 n"
  using assms
proof (induction n arbitrary: s1 s2 t1 t2)
  case 0
  show ?case by simp
next
  case (Suc n)
  have e1: "tolower (peek s1) = tolower (peek t1)" using Suc.prems(1) by (rule agree_peek)
  have e2: "tolower (peek s2) = tolower (peek t2)" using Suc.prems(2) by (rule agree_peek)
  show ?case
  proof (cases "tolower (peek s1) = tolower (peek s2) \<and> tolower (peek s1) \<noteq> 0")
    case True
    then have "peek s1 \<noteq> 0" "peek s2 \<noteq> 0"
      using tolower_peek_zero [of s1] tolower_peek_zero [of s2] by auto
    then have "posix_strncasecmp (tl s1) (tl s2) n = posix_strncasecmp (tl t1) (tl t2) n"
      using Suc.prems by (intro Suc.IH agree_tl)
    with True e1 e2 show ?thesis by (simp add: Let_def)
  next
    case False
    with e1 e2 show ?thesis by (auto simp: Let_def)
  qed
qed

lemma strcasecmp_sign:
  "(posix_strcasecmp s1 s2 < 0 \<longleftrightarrow> ci_less (c_str s1) (c_str s2)) \<and>
   (posix_strcasecmp s1 s2 = 0 \<longleftrightarrow> fold_case (c_str s1) = fold_case (c_str s2)) \<and>
   (0 < posix_strcasecmp s1 s2 \<longleftrightarrow> ci_less (c_str s2) (c_str s1))"
proof (induction s1 s2 rule: posix_strcasecmp.induct)
  case (1 s1 s2)
  show ?case
  proof (cases s1 rule: c_str_cases)
    case stop
    note s1 = stop
    show ?thesis
    proof (cases s2 rule: c_str_cases)
      case stop
      with s1 show ?thesis
        by (subst (1 2 3) posix_strcasecmp.simps) (simp add: ci_less_def fold_case_def tolower_def)
    next
      case (char y)
      then have "0 < tolower (peek s2)"
        using tolower_peek_zero [of s2] tolower_peek_nonneg [of s2] by simp
      with s1 char show ?thesis
        by (subst (1 2 3) posix_strcasecmp.simps)
           (simp add: ci_less_def fold_case_def tolower_def [of 0] Let_def)
    qed
  next
    case (char x)
    note s1 = char
    then have pos1: "0 < tolower (peek s1)"
      using tolower_peek_zero [of s1] tolower_peek_nonneg [of s1] by simp
    show ?thesis
    proof (cases s2 rule: c_str_cases)
      case stop
      with s1 pos1 show ?thesis
        by (subst (1 2 3) posix_strcasecmp.simps)
           (simp add: ci_less_def fold_case_def tolower_def [of 0] Let_def)
    next
      case (char y)
      show ?thesis
      proof (cases "tolower (peek s1) = tolower (peek s2)")
        case True
        with pos1 have ih: "(posix_strcasecmp (tl s1) (tl s2) < 0 \<longleftrightarrow> ci_less (c_str (tl s1)) (c_str (tl s2))) \<and>
          (posix_strcasecmp (tl s1) (tl s2) = 0 \<longleftrightarrow> fold_case (c_str (tl s1)) = fold_case (c_str (tl s2))) \<and>
          (0 < posix_strcasecmp (tl s1) (tl s2) \<longleftrightarrow> ci_less (c_str (tl s2)) (c_str (tl s1)))"
          by (intro "1.IH") auto
        have r: "posix_strcasecmp s1 s2 = posix_strcasecmp (tl s1) (tl s2)"
          using True pos1 by (subst posix_strcasecmp.simps) (simp add: Let_def)
        from True s1 char have "tolower (int (of_char x)) = tolower (int (of_char y))" by simp
        with ih show ?thesis
          unfolding r by (simp add: ci_less_def fold_case_def s1(3) char(3))
      next
        case False
        then have r: "posix_strcasecmp s1 s2 = tolower (peek s1) - tolower (peek s2)"
          by (subst posix_strcasecmp.simps) (simp add: Let_def)
        from False s1 char have "tolower (int (of_char x)) \<noteq> tolower (int (of_char y))" by simp
        then show ?thesis
          unfolding r by (auto simp: ci_less_def fold_case_def s1 char)
      qed
    qed
  qed
qed

lemma strncasecmp_sign:
  "(posix_strncasecmp s1 s2 n < 0 \<longleftrightarrow> ci_less (take n (c_str s1)) (take n (c_str s2))) \<and>
   (posix_strncasecmp s1 s2 n = 0 \<longleftrightarrow> fold_case (take n (c_str s1)) = fold_case (take n (c_str s2))) \<and>
   (0 < posix_strncasecmp s1 s2 n \<longleftrightarrow> ci_less (take n (c_str s2)) (take n (c_str s1)))"
proof (induction n arbitrary: s1 s2)
  case 0
  show ?case by (simp add: ci_less_def fold_case_def)
next
  case (Suc n)
  show ?case
  proof (cases s1 rule: c_str_cases)
    case stop
    note s1 = stop
    show ?thesis
    proof (cases s2 rule: c_str_cases)
      case stop
      with s1 show ?thesis
        by (simp add: ci_less_def fold_case_def tolower_def)
    next
      case (char y)
      then have "0 < tolower (peek s2)"
        using tolower_peek_zero [of s2] tolower_peek_nonneg [of s2] by simp
      with s1 char show ?thesis
        by (simp add: ci_less_def fold_case_def tolower_def [of 0] Let_def)
    qed
  next
    case (char x)
    note s1 = char
    then have pos1: "0 < tolower (peek s1)"
      using tolower_peek_zero [of s1] tolower_peek_nonneg [of s1] by simp
    show ?thesis
    proof (cases s2 rule: c_str_cases)
      case stop
      with s1 pos1 show ?thesis
        by (simp add: ci_less_def fold_case_def tolower_def [of 0] Let_def)
    next
      case (char y)
      show ?thesis
      proof (cases "tolower (peek s1) = tolower (peek s2)")
        case True
        have r: "posix_strncasecmp s1 s2 (Suc n) = posix_strncasecmp (tl s1) (tl s2) n"
          using True pos1 by (simp add: Let_def)
        from True s1 char have "tolower (int (of_char x)) = tolower (int (of_char y))" by simp
        with Suc.IH [of "tl s1" "tl s2"] show ?thesis
          unfolding r by (simp add: ci_less_def fold_case_def s1(3) char(3))
      next
        case False
        then have r: "posix_strncasecmp s1 s2 (Suc n) = tolower (peek s1) - tolower (peek s2)"
          by (simp add: Let_def)
        from False s1 char have "tolower (int (of_char x)) \<noteq> tolower (int (of_char y))" by simp
        then show ?thesis
          unfolding r by (auto simp: ci_less_def fold_case_def s1 char)
      qed
    qed
  qed
qed

lemma use_strcasecmp_libc:
  assumes "tu_for tgt sys env"
  shows "use_strcasecmp sys env (libc2 tgt) s1 s2 = Inr (posix_strcasecmp s1 s2)"
proof (cases tgt)
  case Windows
  with assms have "windows_tu sys env" by (simp add: tu_for_def)
  then show ?thesis
    by (simp add: use_strcasecmp_def reach_windows(1) libc2_def Windows)
next
  case Posix
  with assms have "posix_tu sys env" by (simp add: tu_for_def)
  then show ?thesis
    by (simp add: use_strcasecmp_def reach_posix(1) libc2_def Posix)
qed

lemma use_strncasecmp_libc:
  assumes "tu_for tgt sys env"
  shows "use_strncasecmp sys env (libc3 tgt) s1 s2 n = Inr (posix_strncasecmp s1 s2 n)"
proof (cases tgt)
  case Windows
  with assms have "windows_tu sys env" by (simp add: tu_for_def)
  then show ?thesis
    by (simp add: use_strncasecmp_def reach_windows(2) libc3_def Windows)
next
  case Posix
  with assms have "posix_tu sys env" by (simp add: tu_for_def)
  then show ?thesis
    by (simp add: use_strncasecmp_def reach_posix(2) libc3_def Posix)
qed

lemma sgn_ci_compare:
  assumes "r < 0 \<longleftrightarrow> ci_less a b" and "r = 0 \<longleftrightarrow> fold_case a = fold_case b"
  shows "sgn r = ci_compare a b"
  using assms by (auto simp: ci_compare_def sgn_if)

section \<open>The header: include guard and frame\<close>

text \<open>
  C4. Including the header twice is the same as including it once: the first inclusion
  succeeds, and the second leaves the macro table of the first unchanged and raises no
  redefinition error. The system headers are assumed not to undefine the include guard.
\<close>

theorem include_twice_is_include_once:
  assumes "\<forall>h e. is_defined HTML_TO_MARKDOWN_RB_STRINGS_H e
             \<longrightarrow> is_defined HTML_TO_MARKDOWN_RB_STRINGS_H (sys h e)"
  shows "\<exists>env'. strings_h sys env = Inr env' \<and>
           pp_block [strings_h sys, strings_h sys] env = Inr env'"
proof -
  obtain env' where r: "strings_h sys env = Inr env'"
    using strings_h_total by blast
  have "is_defined HTML_TO_MARKDOWN_RB_STRINGS_H env'"
  proof (cases "is_defined HTML_TO_MARKDOWN_RB_STRINGS_H env")
    case True
    with r show ?thesis by (simp add: strings_h_guarded)
  next
    case False
    define e0 where "e0 = (HTML_TO_MARKDOWN_RB_STRINGS_H, ObjectLike []) # env"
    have g0: "is_defined HTML_TO_MARKDOWN_RB_STRINGS_H e0"
      by (simp add: e0_def is_defined_def)
    have g1: "is_defined HTML_TO_MARKDOWN_RB_STRINGS_H (sys ''string.h'' e0)"
      using assms g0 by blast
    then have "is_defined HTML_TO_MARKDOWN_RB_STRINGS_H (sys ''ctype.h'' (sys ''string.h'' e0))"
      using assms by blast
    then have g2: "is_defined HTML_TO_MARKDOWN_RB_STRINGS_H
        (install_alias ''strncasecmp'' ''_strnicmp''
          (install_alias ''strcasecmp'' ''_stricmp'' (sys ''ctype.h'' (sys ''string.h'' e0))))"
      by (intro install_alias_defined)
    from r False have "env' = sys ''string.h'' e0 \<or>
        env' = install_alias ''strncasecmp'' ''_strnicmp''
          (install_alias ''strcasecmp'' ''_stricmp'' (sys ''ctype.h'' (sys ''string.h'' e0)))"
      by (simp add: strings_h_unfold Let_def e0_def split: if_splits)
    with g1 g2 show ?thesis by blast
  qed
  then have "strings_h sys env' = Inr env'" by (rule strings_h_guarded)
  with r show ?thesis by simp
qed

theorem include_twice_is_include_once_witness:
  "\<exists>env'. strings_h sample_headers (predefined Windows) = Inr env' \<and>
      pp_block [strings_h sample_headers, strings_h sample_headers] (predefined Windows) = Inr env'"
proof -
  have h: "\<forall>h e. is_defined HTML_TO_MARKDOWN_RB_STRINGS_H e
        \<longrightarrow> is_defined HTML_TO_MARKDOWN_RB_STRINGS_H (sample_headers h e)"
    by (simp add: sample_headers_def is_defined_def)
  show ?thesis
    by (rule include_twice_is_include_once [OF h])
qed

text \<open>
  C5. When \<^verbatim>\<open>_WIN32\<close> is not defined the header installs no alias: it does
  nothing beyond defining its include guard and including \<^verbatim>\<open><string.h>\<close>, and
  \<^verbatim>\<open>strcasecmp\<close> and \<^verbatim>\<open>strncasecmp\<close> are defined afterwards exactly as
  they were before (or not at all).
\<close>

theorem not_windows_alters_nothing:
  assumes "\<not> is_defined ''_WIN32'' env" and "keeps sys ''_WIN32''"
    and "keeps sys ''strcasecmp''" and "keeps sys ''strncasecmp''"
  shows "\<exists>env'. strings_h sys env = Inr env' \<and>
           env' = (if is_defined HTML_TO_MARKDOWN_RB_STRINGS_H env then env
                   else sys ''string.h'' ((HTML_TO_MARKDOWN_RB_STRINGS_H, ObjectLike []) # env)) \<and>
           map_of env' ''strcasecmp'' = map_of env ''strcasecmp'' \<and>
           map_of env' ''strncasecmp'' = map_of env ''strncasecmp''"
proof -
  have a: "map_of (sys ''string.h'' ((HTML_TO_MARKDOWN_RB_STRINGS_H, ObjectLike []) # env)) ''strcasecmp''
      = map_of env ''strcasecmp''"
    using assms(3) by (rule keeps_through) simp
  have b: "map_of (sys ''string.h'' ((HTML_TO_MARKDOWN_RB_STRINGS_H, ObjectLike []) # env)) ''strncasecmp''
      = map_of env ''strncasecmp''"
    using assms(4) by (rule keeps_through) simp
  show ?thesis
    unfolding strings_h_not_windows [OF assms(1,2)] using a b by simp
qed

theorem not_windows_alters_nothing_witness:
  "\<exists>env'. strings_h sample_headers [(''strcasecmp'', ObjectLike [''my_compare''])] = Inr env' \<and>
     env' = [(''NULL'', ObjectLike [''0'']), (HTML_TO_MARKDOWN_RB_STRINGS_H, ObjectLike []),
             (''strcasecmp'', ObjectLike [''my_compare''])] \<and>
     map_of env' ''strcasecmp'' = Some (ObjectLike [''my_compare'']) \<and>
     map_of env' ''strncasecmp'' = None"
proof -
  have h1: "\<not> is_defined ''_WIN32'' [(''strcasecmp'', ObjectLike [''my_compare''])]"
    by (simp add: is_defined_def)
  have h2: "keeps sample_headers ''_WIN32''" by (simp add: keeps_def sample_headers_def)
  have h3: "keeps sample_headers ''strcasecmp''" by (simp add: keeps_def sample_headers_def)
  have h4: "keeps sample_headers ''strncasecmp''" by (simp add: keeps_def sample_headers_def)
  show ?thesis
    using not_windows_alters_nothing [OF h1 h2 h3 h4]
    by (simp add: sample_headers_def is_defined_def)
qed

text \<open>
  C9. The header never overrides an existing definition, on a Windows-family target or
  any other: if \<^verbatim>\<open>strcasecmp\<close> or \<^verbatim>\<open>strncasecmp\<close> is already a macro
  when the header is included, it has the same definition afterwards, so the alias is not
  installed in its place.
\<close>

theorem existing_definition_not_overridden:
  assumes "n = ''strcasecmp'' \<or> n = ''strncasecmp''" and "map_of env n = Some m" and "keeps sys n"
  shows "\<exists>env'. strings_h sys env = Inr env' \<and> map_of env' n = Some m"
proof -
  obtain env' where r: "strings_h sys env = Inr env'"
    using strings_h_total by blast
  from r assms(3,2) have "map_of env' n = Some m" by (rule strings_h_frame)
  with r show ?thesis by blast
qed

theorem existing_definition_not_overridden_witness:
  "\<exists>env'. strings_h sample_headers
       [(''strcasecmp'', ObjectLike [''my_compare'']), (''_WIN32'', ObjectLike [''1''])] = Inr env' \<and>
     map_of env' ''strcasecmp'' = Some (ObjectLike [''my_compare''])"
proof -
  have h1: "''strcasecmp'' = ''strcasecmp'' \<or> ''strcasecmp'' = ''strncasecmp''" by simp
  have h2: "map_of [(''strcasecmp'', ObjectLike [''my_compare'']), (''_WIN32'', ObjectLike [''1''])]
      ''strcasecmp'' = Some (ObjectLike [''my_compare''])" by simp
  have h3: "keeps sample_headers ''strcasecmp''" by (simp add: keeps_def sample_headers_def)
  show ?thesis
    by (rule existing_definition_not_overridden [OF h1 h2 h3])
qed

section \<open>The header: aliasing on a Windows-family target\<close>

text \<open>
  C3. On a Windows-family target the sign of the result obtained through the conventional
  name is the sign of the result of the platform's native routine on the same inputs:
  \<^verbatim>\<open>strcasecmp\<close> against \<^verbatim>\<open>_stricmp\<close> and \<^verbatim>\<open>strncasecmp\<close>
  against \<^verbatim>\<open>_strnicmp\<close>, whatever those routines compute. This holds for every
  pair of strings, so also for those that differ beyond letter case.
\<close>

theorem aliased_sign_matches_native:
  assumes "windows_tu sys env"
    and "lib2 ''_stricmp'' = Some stricmp" and "lib3 ''_strnicmp'' = Some strnicmp"
  shows "map_sum id sgn (use_strcasecmp sys env lib2 s1 s2) =
           (case stricmp s1 s2 of None \<Rightarrow> Inl Primitive_undefined | Some r \<Rightarrow> Inr (sgn r)) \<and>
         map_sum id sgn (use_strncasecmp sys env lib3 s1 s2 n) =
           (case strnicmp s1 s2 n of None \<Rightarrow> Inl Primitive_undefined | Some r \<Rightarrow> Inr (sgn r))"
  using assms(2,3)
  by (simp add: use_strcasecmp_def use_strncasecmp_def reach_windows [OF assms(1)]
      split: option.split)

theorem aliased_sign_matches_native_witness:
  "map_sum id sgn (use_strcasecmp sample_headers (predefined Windows) (libc2 Windows)
       ''Hello'' ''help'') = Inr (- 1) \<and>
   map_sum id sgn (use_strncasecmp sample_headers (predefined Windows) (libc3 Windows)
       ''Hello'' ''help'' 3) = Inr 0"
proof -
  have h1: "windows_tu sample_headers (predefined Windows)"
    by (simp add: windows_tu_def predefined_def is_defined_def keeps_def sample_headers_def)
  have h2: "libc2 Windows ''_stricmp'' = Some (\<lambda>s1 s2. Some (posix_strcasecmp s1 s2))"
    by (simp add: libc2_def)
  have h3: "libc3 Windows ''_strnicmp'' = Some (\<lambda>s1 s2 n. Some (posix_strncasecmp s1 s2 n))"
    by (simp add: libc3_def)
  have v2: "posix_strcasecmp ''Hello'' ''help'' = - 4" by code_simp
  have v3: "posix_strncasecmp ''Hello'' ''help'' 3 = 0" by code_simp
  show ?thesis
    using aliased_sign_matches_native [where sys = sample_headers and env = "predefined Windows"
        and ?lib2.0 = "libc2 Windows" and stricmp = "\<lambda>s1 s2. Some (posix_strcasecmp s1 s2)"
        and ?lib3.0 = "libc3 Windows" and strnicmp = "\<lambda>s1 s2 n. Some (posix_strncasecmp s1 s2 n)"
        and ?s1.0 = "''Hello''" and ?s2.0 = "''help''" and n = 3, OF h1 h2 h3]
    by (simp add: v2 v3)
qed

text \<open>
  C7. The aliasing adds no failure of its own. On a Windows-family target a call through
  the conventional name succeeds with the native routine's result wherever that routine
  is defined, and fails only where the routine itself is undefined.
\<close>

theorem alias_adds_no_failure:
  assumes "windows_tu sys env"
    and "lib2 ''_stricmp'' = Some stricmp" and "lib3 ''_strnicmp'' = Some strnicmp"
  shows "use_strcasecmp sys env lib2 s1 s2 =
           (case stricmp s1 s2 of None \<Rightarrow> Inl Primitive_undefined | Some r \<Rightarrow> Inr r) \<and>
         use_strncasecmp sys env lib3 s1 s2 n =
           (case strnicmp s1 s2 n of None \<Rightarrow> Inl Primitive_undefined | Some r \<Rightarrow> Inr r)"
  using assms(2,3)
  by (simp add: use_strcasecmp_def use_strncasecmp_def reach_windows [OF assms(1)])

theorem alias_adds_no_failure_witness:
  "use_strcasecmp sample_headers (predefined Windows)
       [''_stricmp'' \<mapsto> (\<lambda>s1 s2. if s1 = [] then None else Some (posix_strcasecmp s1 s2))]
       ''Hello'' ''help'' = Inr (- 4) \<and>
   use_strcasecmp sample_headers (predefined Windows)
       [''_stricmp'' \<mapsto> (\<lambda>s1 s2. if s1 = [] then None else Some (posix_strcasecmp s1 s2))]
       [] ''help'' = Inl Primitive_undefined \<and>
   use_strncasecmp sample_headers (predefined Windows) (libc3 Windows) ''Hello'' ''help'' 4 = Inr (- 4)"
proof -
  have h1: "windows_tu sample_headers (predefined Windows)"
    by (simp add: windows_tu_def predefined_def is_defined_def keeps_def sample_headers_def)
  have h2: "[''_stricmp'' \<mapsto> (\<lambda>s1 s2. if s1 = [] then None else Some (posix_strcasecmp s1 s2))]
      ''_stricmp'' = Some (\<lambda>s1 s2. if s1 = [] then None else Some (posix_strcasecmp s1 s2))"
    by simp
  have h3: "libc3 Windows ''_strnicmp'' = Some (\<lambda>s1 s2 n. Some (posix_strncasecmp s1 s2 n))"
    by (simp add: libc3_def)
  have v2: "posix_strcasecmp ''Hello'' ''help'' = - 4" by code_simp
  have v3: "posix_strncasecmp ''Hello'' ''help'' 4 = - 4" by code_simp
  show ?thesis
    using alias_adds_no_failure [where sys = sample_headers and env = "predefined Windows"
        and ?lib2.0 = "[''_stricmp'' \<mapsto> (\<lambda>s1 s2. if s1 = [] then None else Some (posix_strcasecmp s1 s2))]"
        and stricmp = "\<lambda>s1 s2. if s1 = [] then None else Some (posix_strcasecmp s1 s2)"
        and ?lib3.0 = "libc3 Windows" and strnicmp = "\<lambda>s1 s2 n. Some (posix_strncasecmp s1 s2 n)"
        and ?s1.0 = "''Hello''" and ?s2.0 = "''help''" and n = 4, OF h1 h2 h3]
      alias_adds_no_failure [where sys = sample_headers and env = "predefined Windows"
        and ?lib2.0 = "[''_stricmp'' \<mapsto> (\<lambda>s1 s2. if s1 = [] then None else Some (posix_strcasecmp s1 s2))]"
        and stricmp = "\<lambda>s1 s2. if s1 = [] then None else Some (posix_strcasecmp s1 s2)"
        and ?lib3.0 = "libc3 Windows" and strnicmp = "\<lambda>s1 s2 n. Some (posix_strncasecmp s1 s2 n)"
        and ?s1.0 = "[]" and ?s2.0 = "''help''" and n = 4, OF h1 h2 h3]
    by (simp add: v2 v3)
qed

section \<open>The comparison reached through the conventional names\<close>

text \<open>
  C1. Two strings that differ only in the letter case of their characters compare equal
  under the conventional names, on a Windows-family target (where the names are aliases of
  the native routines) and on any other target: \<^verbatim>\<open>strcasecmp\<close> returns zero, and
  so does \<^verbatim>\<open>strncasecmp\<close> for every length bound, in particular one that covers
  both strings.
\<close>

theorem case_only_difference_compares_equal:
  assumes "tu_for tgt sys env" and "differ_only_in_case s1 s2"
  shows "use_strcasecmp sys env (libc2 tgt) s1 s2 = Inr 0 \<and>
         use_strncasecmp sys env (libc3 tgt) s1 s2 n = Inr 0"
  using assms
  by (simp add: use_strcasecmp_libc use_strncasecmp_libc strcasecmp_case_only
      strncasecmp_case_only)

theorem case_only_difference_compares_equal_witness:
  "tu_for Windows sample_headers (predefined Windows) \<and>
   differ_only_in_case ''Hello, World'' ''hELLO, wORLD'' \<and>
   use_strcasecmp sample_headers (predefined Windows) (libc2 Windows)
     ''Hello, World'' ''hELLO, wORLD'' = Inr 0 \<and>
   use_strncasecmp sample_headers (predefined Windows) (libc3 Windows)
     ''Hello, World'' ''hELLO, wORLD'' 12 = Inr 0"
proof -
  have h1: "tu_for Windows sample_headers (predefined Windows)"
    by (simp add: tu_for_def windows_tu_def predefined_def is_defined_def keeps_def
        sample_headers_def)
  have h2: "differ_only_in_case ''Hello, World'' ''hELLO, wORLD''" by code_simp
  show ?thesis
    using h1 h2 case_only_difference_compares_equal [OF h1 h2, of 12] by simp
qed

text \<open>
  C2. On either kind of target, the comparison under the conventional names succeeds and
  the sign of its result is the case-insensitive lexicographic ordering of the two C
  strings; for the bounded variant, of their first \<open>n\<close> characters.
\<close>

theorem comparison_is_case_insensitive_lexicographic:
  assumes "tu_for tgt sys env"
  shows "\<exists>r rn. use_strcasecmp sys env (libc2 tgt) s1 s2 = Inr r \<and>
                 sgn r = ci_compare (c_str s1) (c_str s2) \<and>
                 use_strncasecmp sys env (libc3 tgt) s1 s2 n = Inr rn \<and>
                 sgn rn = ci_compare (take n (c_str s1)) (take n (c_str s2))"
proof -
  have "sgn (posix_strcasecmp s1 s2) = ci_compare (c_str s1) (c_str s2)"
    using strcasecmp_sign [of s1 s2] by (intro sgn_ci_compare) simp_all
  moreover have "sgn (posix_strncasecmp s1 s2 n) = ci_compare (take n (c_str s1)) (take n (c_str s2))"
    using strncasecmp_sign [of s1 s2 n] by (intro sgn_ci_compare) simp_all
  ultimately show ?thesis
    using assms by (simp add: use_strcasecmp_libc use_strncasecmp_libc)
qed

theorem comparison_is_case_insensitive_lexicographic_witness:
  "tu_for Posix sample_headers (predefined Posix) \<and>
   (\<exists>r rn. use_strcasecmp sample_headers (predefined Posix) (libc2 Posix) ''apple'' ''APRICOT'' = Inr r \<and>
      sgn r = - 1 \<and>
      use_strncasecmp sample_headers (predefined Posix) (libc3 Posix) ''apple'' ''APRICOT'' 2 = Inr rn \<and>
      sgn rn = 0)"
proof -
  have h1: "tu_for Posix sample_headers (predefined Posix)"
    by (simp add: tu_for_def posix_tu_def predefined_def is_defined_def keeps_def
        sample_headers_def)
  have v1: "ci_compare (c_str ''apple'') (c_str ''APRICOT'') = - 1" by code_simp
  have v2: "ci_compare (take 2 (c_str ''apple'')) (take 2 (c_str ''APRICOT'')) = 0" by code_simp
  show ?thesis
    using h1 comparison_is_case_insensitive_lexicographic [OF h1, of "''apple''" "''APRICOT''" 2]
    by (simp add: v1 v2)
qed

text \<open>
  C8. The bounded comparison looks at no more than the first \<open>n\<close> characters of
  each string: two pairs of inputs that agree, up to letter case, on their first
  \<open>n\<close> characters get the same result, whatever follows.
\<close>

theorem strncasecmp_honours_bound:
  assumes "tu_for tgt sys env"
    and "list_all2 same_letter (take n (c_str s1)) (take n (c_str t1))"
    and "list_all2 same_letter (take n (c_str s2)) (take n (c_str t2))"
  shows "use_strncasecmp sys env (libc3 tgt) s1 s2 n = use_strncasecmp sys env (libc3 tgt) t1 t2 n"
  using assms by (simp add: use_strncasecmp_libc strncasecmp_prefix)

theorem strncasecmp_honours_bound_witness:
  "use_strncasecmp sample_headers (predefined Windows) (libc3 Windows) ''abcXYZ'' ''abdQ'' 3 =
   use_strncasecmp sample_headers (predefined Windows) (libc3 Windows) ''ABCuvw'' ''ABD'' 3"
proof -
  have h1: "tu_for Windows sample_headers (predefined Windows)"
    by (simp add: tu_for_def windows_tu_def predefined_def is_defined_def keeps_def
        sample_headers_def)
  have h2: "list_all2 same_letter (take 3 (c_str ''abcXYZ'')) (take 3 (c_str ''ABCuvw''))"
    by code_simp
  have h3: "list_all2 same_letter (take 3 (c_str ''abdQ'')) (take 3 (c_str ''ABD''))"
    by code_simp
  show ?thesis
    by (rule strncasecmp_honours_bound [OF h1 h2 h3])
qed

text \<open>
  C10. With a length bound of zero the bounded comparison returns zero for every pair of
  strings.
\<close>

theorem strncasecmp_zero_bound:
  assumes "tu_for tgt sys env"
  shows "use_strncasecmp sys env (libc3 tgt) s1 s2 0 = Inr 0"
  using assms by (simp add: use_strncasecmp_libc)

theorem strncasecmp_zero_bound_witness:
  "use_strncasecmp sample_headers (predefined Posix) (libc3 Posix) ''abc'' ''xyz'' 0 = Inr 0"
proof -
  have h1: "tu_for Posix sample_headers (predefined Posix)"
    by (simp add: tu_for_def posix_tu_def predefined_def is_defined_def keeps_def
        sample_headers_def)
  show ?thesis
    by (rule strncasecmp_zero_bound [OF h1])
qed

end
